theory Spec2Isabelle
  imports Main "HOL-Library.Word" "HOL-Library.AList" "HOL-Library.Multiset"
begin

text \<open>
  A model of the package \<^verbatim>\<open>endless\<close>: servers that hand their listening sockets to a child
  process on SIGHUP and drain their connections on SIGINT or SIGTERM. The model follows the
  current source of the package, the one with lifecycle states, the hammer, the socket order
  and the registration of signal hooks. Every function is a function on explicit state: the
  server it is called on, the package variables, and what the operating system answered.
  Errors and panics are values.
\<close>

section \<open>Constants and basic types\<close>

text \<open>
  The constant block of the package is one \<^verbatim>\<open>iota\<close> sequence, so the two hook phases
  are 0 and 1 and the four lifecycle states are 2 to 5. The phase argument of
  \<^verbatim>\<open>RegisterSignalHook\<close> is an \<^verbatim>\<open>int\<close>, the state field a \<^verbatim>\<open>uint8\<close>.
\<close>

definition PRE_SIGNAL :: int where "PRE_SIGNAL = 0"
definition POST_SIGNAL :: int where "POST_SIGNAL = 1"

definition STATE_INIT :: "8 word" where "STATE_INIT = 2"
definition STATE_RUNNING :: "8 word" where "STATE_RUNNING = 3"
definition STATE_SHUTTING_DOWN :: "8 word" where "STATE_SHUTTING_DOWN = 4"
definition STATE_TERMINATE :: "8 word" where "STATE_TERMINATE = 5"

datatype signal = SIGHUP | SIGUSR1 | SIGUSR2 | SIGINT | SIGTERM | SIGTSTP | SIGOTHER nat

definition hookableSignals :: "signal list" where
  "hookableSignals = [SIGHUP, SIGUSR1, SIGUSR2, SIGINT, SIGTERM, SIGTSTP]"

text \<open>
  Errors are values. \<open>External n\<close> stands for an error value handed back by the operating
  system or a library call (accept, close, listen, certificate loading, process start).
\<close>

datatype error =
    EINVAL
  | AlreadyForked
  | BadPrePost signal
  | UnsupportedSignal signal
  | FileListenerError error
  | ListenError error
  | UseOfClosedConn
  | External nat

datatype panic = NilDereference | IndexOutOfRange | NegativeWaitGroup | NilMapAssignment

text \<open>A user callback \<^verbatim>\<open>func()\<close> is opaque to the package; it is identified by a number.\<close>

type_synonym hook = nat

section \<open>The tracking listener and its connections\<close>

record tcpListener =
  sock :: nat
  lclosed :: bool

record endlessListener =
  Listener :: tcpListener
  stopped :: bool

record tcpConn =
  peer :: nat
  cclosed :: bool
  keepAlive :: bool
  keepAlivePeriod :: nat

text \<open>
  \<^verbatim>\<open>EndlessListener\<close> has the interface type \<^verbatim>\<open>net.Listener\<close>: it is nil, the tracking
  listener itself, or the TLS wrapper made by \<^verbatim>\<open>tls.NewListener(srv.tlsInnerListener, config)\<close>.
  The wrapper holds a pointer to the object stored in \<^verbatim>\<open>tlsInnerListener\<close>, so \<open>TLSWrapped\<close>
  carries no copy: it delegates to that field.
\<close>

datatype net_Listener = NilListener | Tracking endlessListener | TLSWrapped

datatype os_File = DupFile nat

record endlessServer =
  Addr :: string
  EndlessListener :: net_Listener
  SignalHooks :: "int \<rightharpoonup> (signal \<rightharpoonup> hook list)"
  tlsInnerListener :: "endlessListener option"
  wg :: nat
  isChild :: bool
  state :: "8 word"
  keepAlivesEnabled :: bool
  hammers :: "int list"

text \<open>
  \<open>wg\<close> is the counter of the \<^verbatim>\<open>sync.WaitGroup\<close>; \<open>keepAlivesEnabled\<close> is the flag of the
  embedded \<^verbatim>\<open>http.Server\<close> that \<^verbatim>\<open>SetKeepAlivesEnabled\<close> writes; \<open>hammers\<close> lists the
  delays of the \<^verbatim>\<open>go srv.hammerTime(d)\<close> tasks launched so far. The signal channel, the
  lock, the timeouts and the handler are not needed by any property below.
\<close>

text \<open>
  Modelled from the spec: \<^verbatim>\<open>sync.WaitGroup\<close> belongs to the Go standard library, not to the
  repository. The spec describes it as a counter of accepted-but-unclosed connections that is
  never negative and whose decrement panics when the counter would go negative.
\<close>

definition wg_Add1 :: "nat \<Rightarrow> nat" where
  "wg_Add1 c = Suc c"

definition wg_Done :: "nat \<Rightarrow> panic + nat" where
  "wg_Done c = (if c = 0 then Inl NegativeWaitGroup else Inr (c - 1))"

definition newEndlessListener :: "tcpListener \<Rightarrow> endlessListener" where
  "newEndlessListener l = \<lparr>Listener = l, stopped = False\<rparr>"

text \<open>
  \<^verbatim>\<open>endlessListener.Accept\<close>. The argument \<open>tcp\<close> is what \<^verbatim>\<open>AcceptTCP\<close> of the wrapped
  listener returned; the server is \<^verbatim>\<open>el.server\<close>. The keep-alive period is in minutes.
\<close>

definition Accept :: "error + tcpConn \<Rightarrow> endlessServer \<Rightarrow> (error + tcpConn) \<times> endlessServer" where
  "Accept tcp srv =
     (case tcp of
        Inl err \<Rightarrow> (Inl err, srv)
      | Inr tc \<Rightarrow>
          (let tc1 = tc\<lparr>keepAlive := True\<rparr>;
               tc2 = tc1\<lparr>keepAlivePeriod := 3\<rparr>
           in (Inr tc2, srv\<lparr>wg := wg_Add1 (wg srv)\<rparr>)))"

text \<open>
  \<^verbatim>\<open>net.Conn.Close\<close> of the standard library, as far as the counter depends on it: the first
  call closes the connection and returns what the operating system reported (\<open>os\<close>), every
  later call returns an error.
\<close>

definition Conn_Close :: "error option \<Rightarrow> tcpConn \<Rightarrow> error option \<times> tcpConn" where
  "Conn_Close os c =
     (if cclosed c then (Some UseOfClosedConn, c) else (os, c\<lparr>cclosed := True\<rparr>))"

text \<open>
  \<^verbatim>\<open>endlessConn.Close\<close>: the counter is decremented only when the wrapped close returned nil.
  A panic of \<^verbatim>\<open>wg.Done\<close> leaves the function before it returns.
\<close>

definition endlessConn_Close ::
  "error option \<Rightarrow> tcpConn \<Rightarrow> endlessServer \<Rightarrow> (panic + error option) \<times> tcpConn \<times> endlessServer" where
  "endlessConn_Close os w srv =
     (case Conn_Close os w of
        (Some err, w') \<Rightarrow> (Inr (Some err), w', srv)
      | (None, w') \<Rightarrow>
          (case wg_Done (wg srv) of
             Inl p \<Rightarrow> (Inl p, w', srv)
           | Inr c \<Rightarrow> (Inr None, w', srv\<lparr>wg := c\<rparr>)))"

text \<open>Any number of \<^verbatim>\<open>Close\<close> calls on one connection, each with its own OS result.\<close>

fun close_calls :: "error option list \<Rightarrow> tcpConn \<Rightarrow> endlessServer \<Rightarrow> tcpConn \<times> endlessServer" where
  "close_calls [] w srv = (w, srv)"
| "close_calls (os # rest) w srv =
     (case endlessConn_Close os w srv of (_, w', srv') \<Rightarrow> close_calls rest w' srv')"

text \<open>
  \<^verbatim>\<open>endlessListener.Close\<close>; \<open>res\<close> is what closing the wrapped listener returns.
\<close>

definition endlessListener_Close :: "error option \<Rightarrow> endlessListener \<Rightarrow> error option \<times> endlessListener" where
  "endlessListener_Close res el =
     (if stopped el then (Some EINVAL, el)
      else (res, el\<lparr>stopped := True, Listener := (Listener el)\<lparr>lclosed := True\<rparr>\<rparr>))"

definition File :: "endlessListener \<Rightarrow> os_File" where
  "File el = DupFile (sock (Listener el))"

section \<open>The server instance\<close>

definition getState :: "endlessServer \<Rightarrow> 8 word" where
  "getState srv = state srv"

definition setState :: "endlessServer \<Rightarrow> 8 word \<Rightarrow> endlessServer" where
  "setState srv st = srv\<lparr>state := st\<rparr>"

text \<open>
  \<^verbatim>\<open>srv.EndlessListener.Close()\<close>: a nil interface panics, the tracking listener closes
  itself, the TLS wrapper forwards to the listener it embeds.
\<close>

definition EndlessListener_Close :: "error option \<Rightarrow> endlessServer \<Rightarrow> (panic + error option) \<times> endlessServer" where
  "EndlessListener_Close res srv =
     (case EndlessListener srv of
        NilListener \<Rightarrow> (Inl NilDereference, srv)
      | Tracking el \<Rightarrow>
          (case endlessListener_Close res el of
             (err, el') \<Rightarrow> (Inr err, srv\<lparr>EndlessListener := Tracking el'\<rparr>))
      | TLSWrapped \<Rightarrow>
          (case tlsInnerListener srv of
             None \<Rightarrow> (Inl NilDereference, srv)
           | Some el \<Rightarrow>
               (case endlessListener_Close res el of
                  (err, el') \<Rightarrow> (Inr err, srv\<lparr>tlsInnerListener := Some el'\<rparr>))))"

text \<open>
  \<^verbatim>\<open>shutdown\<close>. \<open>dht\<close> is the package variable \<^verbatim>\<open>DefaultHammerTime\<close> (a \<^verbatim>\<open>time.Duration\<close>,
  compared with 0 as a signed number); \<open>res\<close> is the result of closing the wrapped listener.
  The first component is the panic, if one leaves the function.
\<close>

definition shutdown :: "int \<Rightarrow> error option \<Rightarrow> endlessServer \<Rightarrow> panic option \<times> endlessServer" where
  "shutdown dht res srv =
     (if getState srv \<noteq> STATE_RUNNING then (None, srv)
      else
        (let s1 = setState srv STATE_SHUTTING_DOWN;
             s2 = (if dht \<ge> 0 then s1\<lparr>hammers := hammers s1 @ [dht]\<rparr> else s1);
             s3 = s2\<lparr>keepAlivesEnabled := False\<rparr>
         in case EndlessListener_Close res s3 of
              (Inl p, s4) \<Rightarrow> (Some p, s4)
            | (Inr err, s4) \<Rightarrow> (None, s4)))"

text \<open>
  The loop of \<^verbatim>\<open>hammerTime\<close>, run without interruption: the yield to the scheduler between
  two decrements is not modelled. The second component tells whether \<^verbatim>\<open>wg.Done\<close> panicked;
  the deferred \<^verbatim>\<open>recover\<close> catches that panic, so the function returns normally either way.
\<close>

function hammer_loop :: "endlessServer \<Rightarrow> endlessServer \<times> bool" where
  "hammer_loop srv =
     (if getState srv = STATE_TERMINATE then (srv, False)
      else (case wg_Done (wg srv) of
              Inl p \<Rightarrow> (srv, True)
            | Inr c \<Rightarrow> hammer_loop (srv\<lparr>wg := c\<rparr>)))"
  by pat_completeness auto
termination
  by (relation "measure wg") (auto simp: wg_Done_def split: if_splits)

declare hammer_loop.simps [simp del]

definition hammerTime :: "int \<Rightarrow> endlessServer \<Rightarrow> endlessServer \<times> bool" where
  "hammerTime d srv =
     (if getState srv \<noteq> STATE_SHUTTING_DOWN then (srv, False) else hammer_loop srv)"

text \<open>
  \<^verbatim>\<open>Serve\<close> blocks twice, in the serving loop of the HTTP library and in \<^verbatim>\<open>wg.Wait\<close>, while
  other tasks change the server. Its own writes are the two below: the state is set to
  running before the serving loop, and to terminated after the wait has returned.
\<close>

definition Serve_enter :: "endlessServer \<Rightarrow> endlessServer" where
  "Serve_enter srv = setState srv STATE_RUNNING"


section \<open>Signal hooks\<close>

text \<open>
  \<^verbatim>\<open>signalHooks\<close> returns at once when the phase or the signal has no entry, and calls the
  registered callbacks in order otherwise. The result is the list of callbacks called.
\<close>

definition signalHooks :: "int \<Rightarrow> signal \<Rightarrow> endlessServer \<Rightarrow> hook list" where
  "signalHooks ppFlag sig srv =
     (case SignalHooks srv ppFlag of
        None \<Rightarrow> []
      | Some m \<Rightarrow> (case m sig of None \<Rightarrow> [] | Some fs \<Rightarrow> fs))"

text \<open>
  The assignment \<^verbatim>\<open>srv.SignalHooks[prePost][sig] = append(srv.SignalHooks[prePost][sig], f)\<close>:
  reading a missing key gives the nil slice, writing into a missing inner map panics.
\<close>

definition append_hook :: "int \<Rightarrow> signal \<Rightarrow> hook \<Rightarrow> endlessServer \<Rightarrow> (panic + error option) \<times> endlessServer" where
  "append_hook prePost sig f srv =
     (case SignalHooks srv prePost of
        None \<Rightarrow> (Inl NilMapAssignment, srv)
      | Some m \<Rightarrow>
          (Inr None,
           srv\<lparr>SignalHooks := (SignalHooks srv)
                  (prePost \<mapsto> m(sig \<mapsto> (case m sig of None \<Rightarrow> [] | Some fs \<Rightarrow> fs) @ [f]))\<rparr>))"

fun register_loop ::
  "signal list \<Rightarrow> int \<Rightarrow> signal \<Rightarrow> hook \<Rightarrow> endlessServer \<Rightarrow> (panic + error option) \<times> endlessServer" where
  "register_loop [] prePost sig f srv = (Inr (Some (UnsupportedSignal sig)), srv)"
| "register_loop (s # ss) prePost sig f srv =
     (if s = sig then append_hook prePost sig f srv else register_loop ss prePost sig f srv)"

definition RegisterSignalHook ::
  "int \<Rightarrow> signal \<Rightarrow> hook \<Rightarrow> endlessServer \<Rightarrow> (panic + error option) \<times> endlessServer" where
  "RegisterSignalHook prePost sig f srv =
     (if prePost \<noteq> PRE_SIGNAL \<and> prePost \<noteq> POST_SIGNAL then (Inr (Some (BadPrePost sig)), srv)
      else register_loop hookableSignals prePost sig f srv)"

section \<open>The registry and the construction of servers\<close>

text \<open>
  The package variables. The two Go maps are association lists with one entry per key
  (\<open>AList.update\<close> overwrites), so that their length is \<^verbatim>\<open>len\<close> of the map; the order in
  which \<^verbatim>\<open>range\<close> visits \<^verbatim>\<open>runningServers\<close> is not fixed by the language and is an argument
  of \<open>fork\<close>. Offsets are \<^verbatim>\<open>uint\<close> values made from slice indices and lengths, which stay
  far below the word size, so they are natural numbers here.
\<close>

record registry =
  runningServers :: "(string \<times> endlessServer) list"
  runningServersOrder :: "string list"
  socketPtrOffsetMap :: "(string \<times> nat) list"
  runningServersForked :: bool
  pkg_isChild :: bool
  socketOrder :: string
  DefaultHammerTime :: int

definition init :: registry where
  "init = \<lparr>runningServers = [], runningServersOrder = [], socketPtrOffsetMap = [],
           runningServersForked = False, pkg_isChild = False, socketOrder = [],
           DefaultHammerTime = 60 * 1000000000\<rparr>"

text \<open>
  The process environment is a list of \<^verbatim>\<open>KEY=value\<close> strings. \<^verbatim>\<open>os.Getenv\<close> gives the empty
  string for a variable that is not set; of several entries for one key the last one counts,
  which is what a process started by \<^verbatim>\<open>exec.Cmd\<close> sees.
\<close>

definition Getenv :: "string list \<Rightarrow> string \<Rightarrow> string" where
  "Getenv environ key =
     (case filter (\<lambda>e. take (length key + 1) e = key @ ''='') (rev environ) of
        [] \<Rightarrow> []
      | e # _ \<Rightarrow> drop (length key + 1) e)"

text \<open>\<^verbatim>\<open>strings.Split(s, ",")\<close> and \<^verbatim>\<open>strings.Join(xs, ",")\<close>.\<close>

fun Split :: "string \<Rightarrow> string list" where
  "Split [] = [[]]"
| "Split (c # cs) =
     (if c = CHR '','' then [] # Split cs
      else (case Split cs of [] \<Rightarrow> [[c]] | w # ws \<Rightarrow> (c # w) # ws))"

fun Join :: "string list \<Rightarrow> string" where
  "Join [] = []"
| "Join [x] = x"
| "Join (x # y # ys) = x @ CHR '','' # Join (y # ys)"

text \<open>Reading a Go map of \<^verbatim>\<open>uint\<close> at a missing key gives 0.\<close>

definition offset_of :: "(string \<times> nat) list \<Rightarrow> string \<Rightarrow> nat" where
  "offset_of m k = (case map_of m k of None \<Rightarrow> 0 | Some i \<Rightarrow> i)"

text \<open>The loop \<^verbatim>\<open>for i, addr := range strings.Split(socketOrder, ",")\<close> of \<^verbatim>\<open>NewServer\<close>.\<close>

fun decode_order :: "nat \<Rightarrow> string list \<Rightarrow> (string \<times> nat) list \<Rightarrow> (string \<times> nat) list" where
  "decode_order i [] m = m"
| "decode_order i (addr # rest) m = decode_order (Suc i) rest (AList.update addr i m)"

definition init_hooks :: "int \<rightharpoonup> (signal \<rightharpoonup> hook list)" where
  "init_hooks =
     [PRE_SIGNAL \<mapsto> [SIGHUP \<mapsto> [], SIGUSR1 \<mapsto> [], SIGUSR2 \<mapsto> [], SIGINT \<mapsto> [], SIGTERM \<mapsto> [], SIGTSTP \<mapsto> []],
      POST_SIGNAL \<mapsto> [SIGHUP \<mapsto> [], SIGUSR1 \<mapsto> [], SIGUSR2 \<mapsto> [], SIGINT \<mapsto> [], SIGTERM \<mapsto> [], SIGTSTP \<mapsto> []]]"

definition NewServer :: "string list \<Rightarrow> string \<Rightarrow> registry \<Rightarrow> endlessServer \<times> registry" where
  "NewServer environ addr g =
     (let so = Getenv environ ''ENDLESS_SOCKET_ORDER'';
          ic = (Getenv environ ''ENDLESS_CONTINUE'' \<noteq> []);
          offs = (if length so > 0 then decode_order 0 (Split so) (socketPtrOffsetMap g)
                  else AList.update addr (length (runningServersOrder g)) (socketPtrOffsetMap g));
          srv = \<lparr>Addr = addr, EndlessListener = NilListener, SignalHooks = init_hooks,
                 tlsInnerListener = None, wg = 0, isChild = ic, state = STATE_INIT,
                 keepAlivesEnabled = True, hammers = []\<rparr>
      in (srv,
          g\<lparr>runningServers := AList.update addr srv (runningServers g),
            runningServersOrder := runningServersOrder g @ [addr],
            socketPtrOffsetMap := offs,
            pkg_isChild := ic,
            socketOrder := so\<rparr>))"

section \<open>Listener acquisition\<close>

text \<open>
  \<open>FileListener fd\<close> is \<^verbatim>\<open>net.FileListener(os.NewFile(fd, ""))\<close> and \<open>Listen a\<close> is
  \<^verbatim>\<open>net.Listen("tcp", a)\<close>: what the operating system answers is an argument.
\<close>

definition getListener ::
  "(nat \<Rightarrow> error + tcpListener) \<Rightarrow> (string \<Rightarrow> error + tcpListener) \<Rightarrow> registry \<Rightarrow>
   endlessServer \<Rightarrow> string \<Rightarrow> error + tcpListener" where
  "getListener FileListener Listen g srv laddr =
     (if isChild srv then
        (let ptrOffset = (if length (socketPtrOffsetMap g) > 0
                          then offset_of (socketPtrOffsetMap g) laddr else 0)
         in case FileListener (3 + ptrOffset) of
              Inl err \<Rightarrow> Inl (FileListenerError err)
            | Inr l \<Rightarrow> Inr l)
      else
        (case Listen laddr of
           Inl err \<Rightarrow> Inl (ListenError err)
         | Inr l \<Rightarrow> Inr l))"

section \<open>Starting a server\<close>

text \<open>
  What \<^verbatim>\<open>ListenAndServe\<close> and \<^verbatim>\<open>ListenAndServeTLS\<close> do before they block in \<^verbatim>\<open>Serve\<close> is
  recorded as a list of actions, in program order. Log lines are not recorded.
\<close>

datatype action =
    GoHandleSignals
  | Kill nat signal
  | Sleep nat
  | CallBeforeBegin string
  | CallServe

text \<open>
  The loop \<^verbatim>\<open>for cnt := 0; cnt < 3; cnt++\<close>; \<open>ppid\<close> was read once, before the loop. The
  sleep is in milliseconds.
\<close>

function sigterm_loop :: "nat \<Rightarrow> nat \<Rightarrow> action list" where
  "sigterm_loop ppid cnt =
     (if cnt < 3 then
        (if ppid = 1 then []
         else Kill ppid SIGTERM # Sleep 10 # sigterm_loop ppid (cnt + 1))
      else [])"
  by pat_completeness auto
termination
  by (relation "measure (\<lambda>(ppid, cnt). 3 - cnt)") auto

declare sigterm_loop.simps [simp del]

definition ListenAndServe ::
  "(nat \<Rightarrow> error + tcpListener) \<Rightarrow> (string \<Rightarrow> error + tcpListener) \<Rightarrow> nat \<Rightarrow> registry \<Rightarrow>
   endlessServer \<Rightarrow> action list \<times> (error + endlessServer)" where
  "ListenAndServe FileListener Listen ppid g srv =
     (let addr = (if Addr srv = [] then '':http'' else Addr srv)
      in case getListener FileListener Listen g srv addr of
           Inl err \<Rightarrow> ([GoHandleSignals], Inl err)
         | Inr l \<Rightarrow>
             (let srv1 = srv\<lparr>EndlessListener := Tracking (newEndlessListener l)\<rparr>
              in ([GoHandleSignals]
                  @ (if isChild srv1 then sigterm_loop ppid 0 else [])
                  @ [CallBeforeBegin (Addr srv1), CallServe],
                  Inr srv1)))"

text \<open>\<open>cert\<close> is the error of \<^verbatim>\<open>tls.LoadX509KeyPair\<close>, if any.\<close>

definition ListenAndServeTLS ::
  "error option \<Rightarrow> (nat \<Rightarrow> error + tcpListener) \<Rightarrow> (string \<Rightarrow> error + tcpListener) \<Rightarrow> nat \<Rightarrow>
   registry \<Rightarrow> endlessServer \<Rightarrow> action list \<times> (error + endlessServer)" where
  "ListenAndServeTLS cert FileListener Listen ppid g srv =
     (let addr = (if Addr srv = [] then '':https'' else Addr srv)
      in case cert of
           Some err \<Rightarrow> ([], Inl err)
         | None \<Rightarrow>
             (case getListener FileListener Listen g srv addr of
                Inl err \<Rightarrow> ([GoHandleSignals], Inl err)
              | Inr l \<Rightarrow>
                  (let srv1 = srv\<lparr>tlsInnerListener := Some (newEndlessListener l)\<rparr>;
                       srv2 = srv1\<lparr>EndlessListener := TLSWrapped\<rparr>
                   in ([GoHandleSignals]
                       @ (if isChild srv2 then [Kill ppid SIGTERM] else [])
                       @ [CallServe],
                       Inr srv2))))"

section \<open>The fork coordinator\<close>

record cmd =
  Path :: string
  Args :: "string list"
  ExtraFiles :: "os_File option list"
  Env :: "string list"

datatype fork_outcome =
    ForkError error
  | Started cmd
  | StartFailed cmd error
  | ForkPanic panic

text \<open>
  The type switch of \<^verbatim>\<open>fork\<close>: the tracking listener gives its own file, every other value
  of \<^verbatim>\<open>EndlessListener\<close> (the TLS wrapper, or nil) goes to \<^verbatim>\<open>tlsInnerListener.File()\<close>.
\<close>

definition listener_file :: "endlessServer \<Rightarrow> panic + os_File" where
  "listener_file srvPtr =
     (case EndlessListener srvPtr of
        Tracking el \<Rightarrow> Inr (File el)
      | _ \<Rightarrow> (case tlsInnerListener srvPtr of
                None \<Rightarrow> Inl NilDereference
              | Some el \<Rightarrow> Inr (File el)))"

text \<open>
  The loop \<^verbatim>\<open>for _, srvPtr := range runningServers\<close> over the entries in the order \<open>visit\<close>,
  writing both slices at the slot \<^verbatim>\<open>socketPtrOffsetMap[srvPtr.Server.Addr]\<close>.
\<close>

fun collect_files ::
  "(string \<times> endlessServer) list \<Rightarrow> (string \<times> nat) list \<Rightarrow> os_File option list \<Rightarrow> string list \<Rightarrow>
   panic + (os_File option list \<times> string list)" where
  "collect_files [] offs files orderArgs = Inr (files, orderArgs)"
| "collect_files ((k, srvPtr) # rest) offs files orderArgs =
     (case listener_file srvPtr of
        Inl p \<Rightarrow> Inl p
      | Inr fl \<Rightarrow>
          (let i = offset_of offs (Addr srvPtr)
           in if i < length files \<and> i < length orderArgs
              then collect_files rest offs (files[i := Some fl]) (orderArgs[i := Addr srvPtr])
              else Inl IndexOutOfRange))"

text \<open>
  \<open>visit\<close> is the order in which \<^verbatim>\<open>range\<close> yields the entries of \<^verbatim>\<open>runningServers\<close>,
  \<open>osArgs\<close> is \<^verbatim>\<open>os.Args\<close>, \<open>environ\<close> is \<^verbatim>\<open>os.Environ()\<close> and \<open>start\<close> is the error of
  \<^verbatim>\<open>cmd.Start()\<close>, if any. The receiver is not used by the function.
\<close>

definition fork ::
  "(string \<times> endlessServer) list \<Rightarrow> string list \<Rightarrow> string list \<Rightarrow> error option \<Rightarrow> registry \<Rightarrow>
   fork_outcome \<times> registry" where
  "fork visit osArgs environ start g =
     (if runningServersForked g then (ForkError AlreadyForked, g)
      else
        (let g1 = g\<lparr>runningServersForked := True\<rparr>;
             n = length (runningServers g1)
         in case collect_files visit (socketPtrOffsetMap g1) (replicate n None) (replicate n []) of
              Inl p \<Rightarrow> (ForkPanic p, g1)
            | Inr (files, orderArgs) \<Rightarrow>
                (let env1 = environ @ [''ENDLESS_CONTINUE=1''];
                     env2 = (if n > 1 then env1 @ [''ENDLESS_SOCKET_ORDER='' @ Join orderArgs]
                             else env1)
                 in case osArgs of
                      [] \<Rightarrow> (ForkPanic IndexOutOfRange, g1)
                    | path # args \<Rightarrow>
                        (let c = \<lparr>Path = path, Args = args, ExtraFiles = files, Env = env2\<rparr>
                         in case start of
                              None \<Rightarrow> (Started c, g1)
                            | Some err \<Rightarrow> (StartFailed c err, g1)))))"

text \<open>The children started by a sequence of \<^verbatim>\<open>fork\<close> calls, one call per delivered SIGHUP.\<close>

fun spawned :: "fork_outcome \<Rightarrow> cmd list" where
  "spawned (Started c) = [c]"
| "spawned _ = []"

fun forks ::
  "((string \<times> endlessServer) list \<times> string list \<times> string list \<times> error option) list \<Rightarrow> registry \<Rightarrow>
   cmd list \<times> registry" where
  "forks [] g = ([], g)"
| "forks ((visit, osArgs, environ, start) # rest) g =
     (case fork visit osArgs environ start g of
        (out, g1) \<Rightarrow> (case forks rest g1 of (cs, g2) \<Rightarrow> (spawned out @ cs, g2)))"

section \<open>The signal handler loop\<close>

datatype dispatched =
    Forked fork_outcome
  | Hammered bool
  | ShutDown "panic option"
  | NoAction

text \<open>
  One round of the loop of \<^verbatim>\<open>handleSignals\<close> for the signal \<open>sig\<close>: the hooks called before,
  what the switch did, the hooks called after. The callbacks themselves are opaque. A panic
  or a failed start ends the task before the second round of hooks.
\<close>

definition handleSignal ::
  "(string \<times> endlessServer) list \<Rightarrow> string list \<Rightarrow> string list \<Rightarrow> error option \<Rightarrow> error option \<Rightarrow>
   signal \<Rightarrow> endlessServer \<Rightarrow> registry \<Rightarrow>
   (hook list \<times> dispatched \<times> hook list) \<times> endlessServer \<times> registry" where
  "handleSignal visit osArgs environ start res sig srv g =
     (let pre = signalHooks PRE_SIGNAL sig srv
      in case sig of
           SIGHUP \<Rightarrow>
             (case fork visit osArgs environ start g of
                (ForkPanic p, g1) \<Rightarrow> ((pre, Forked (ForkPanic p), []), srv, g1)
              | (StartFailed c err, g1) \<Rightarrow> ((pre, Forked (StartFailed c err), []), srv, g1)
              | (out, g1) \<Rightarrow> ((pre, Forked out, signalHooks POST_SIGNAL sig srv), srv, g1))
         | SIGUSR2 \<Rightarrow>
             (case hammerTime 0 srv of
                (srv1, r) \<Rightarrow> ((pre, Hammered r, signalHooks POST_SIGNAL sig srv1), srv1, g))
         | SIGINT \<Rightarrow>
             (case shutdown (DefaultHammerTime g) res srv of
                (Some p, srv1) \<Rightarrow> ((pre, ShutDown (Some p), []), srv1, g)
              | (None, srv1) \<Rightarrow> ((pre, ShutDown None, signalHooks POST_SIGNAL sig srv1), srv1, g))
         | SIGTERM \<Rightarrow>
             (case shutdown (DefaultHammerTime g) res srv of
                (Some p, srv1) \<Rightarrow> ((pre, ShutDown (Some p), []), srv1, g)
              | (None, srv1) \<Rightarrow> ((pre, ShutDown None, signalHooks POST_SIGNAL sig srv1), srv1, g))
         | _ \<Rightarrow> ((pre, NoAction, signalHooks POST_SIGNAL sig srv), srv, g))"

section \<open>Observations and example values\<close>

text \<open>The tracking listener behind \<^verbatim>\<open>EndlessListener\<close>, whichever way it is wrapped.\<close>

definition listener_of :: "endlessServer \<Rightarrow> endlessListener option" where
  "listener_of srv =
     (case EndlessListener srv of
        NilListener \<Rightarrow> None
      | Tracking el \<Rightarrow> Some el
      | TLSWrapped \<Rightarrow> tlsInnerListener srv)"

text \<open>Successive calls of \<^verbatim>\<open>NewServer\<close> in one process, one per address.\<close>

definition register_all :: "string list \<Rightarrow> string list \<Rightarrow> registry \<Rightarrow> registry" where
  "register_all environ addrs g = fold (\<lambda>a g'. snd (NewServer environ a g')) addrs g"

text \<open>The result of \<open>getListener\<close> in a child that opens descriptor \<open>fd\<close>.\<close>

definition opened :: "error + tcpListener \<Rightarrow> error + tcpListener" where
  "opened r = (case r of Inl err \<Rightarrow> Inl (FileListenerError err) | Inr l \<Rightarrow> Inr l)"

definition example_listener :: tcpListener where
  "example_listener = \<lparr>sock = 7, lclosed = False\<rparr>"

definition example_conn :: tcpConn where
  "example_conn = \<lparr>peer = 1, cclosed = False, keepAlive = False, keepAlivePeriod = 0\<rparr>"

definition new_server :: endlessServer where
  "new_server = fst (NewServer [] '':8080'' init)"

definition listening_server :: endlessServer where
  "listening_server = new_server\<lparr>EndlessListener := Tracking (newEndlessListener example_listener)\<rparr>"

definition running_server :: endlessServer where
  "running_server = Serve_enter listening_server"

text \<open>A restart child with two inherited listeners, and one with a single listener.\<close>

definition child_environ :: "string list" where
  "child_environ = [''HOME=/root'', ''ENDLESS_CONTINUE=1'', ''ENDLESS_SOCKET_ORDER=:80,:443'']"


definition child_server :: endlessServer where
  "child_server = fst (NewServer child_environ '':443'' init)"

definition example_fds :: "nat \<Rightarrow> error + tcpListener" where
  "example_fds fd =
     (if fd = 3 \<or> fd = 4 then Inr \<lparr>sock = fd, lclosed = False\<rparr> else Inl (External 9))"

definition example_listen :: "string \<Rightarrow> error + tcpListener" where
  "example_listen a = Inr \<lparr>sock = 100 + length a, lclosed = False\<rparr>"

text \<open>
  Every registered server goes through the start of \<^verbatim>\<open>ListenAndServe\<close>; the servers are
  shared objects, so the registry sees the listener each one has acquired.
\<close>

definition listen_all ::
  "(nat \<Rightarrow> error + tcpListener) \<Rightarrow> (string \<Rightarrow> error + tcpListener) \<Rightarrow> nat \<Rightarrow> registry \<Rightarrow> registry" where
  "listen_all FL L ppid g =
     g\<lparr>runningServers :=
         map (\<lambda>(a, srv). (a, case snd (ListenAndServe FL L ppid g srv) of
                               Inl err \<Rightarrow> srv | Inr srv' \<Rightarrow> srv'))
             (runningServers g)\<rparr>"

text \<open>A parent process with two listeners, and the child command it is expected to start.\<close>

definition parent_environ :: "string list" where
  "parent_environ = [''HOME=/root'']"

definition parent_registry :: registry where
  "parent_registry = listen_all example_fds example_listen 1 (register_all parent_environ ['':80'', '':443''] init)"

definition example_cmd :: cmd where
  "example_cmd = \<lparr>Path = ''/bin/server'', Args = [''-v''],
                   ExtraFiles = [Some (DupFile 103), Some (DupFile 104)],
                   Env = [''HOME=/root'', ''ENDLESS_CONTINUE=1'', ''ENDLESS_SOCKET_ORDER=:80,:443'']\<rparr>"





text \<open>Further example values: the registry of the child, and servers in later states.\<close>

definition child_registry :: registry where
  "child_registry = register_all child_environ ['':443'', '':80''] init"






section \<open>Connection tracking\<close>

lemma close_calls_closed: "cclosed w \<Longrightarrow> close_calls oss w srv = (w, srv)"
  by (induction oss) (auto simp: endlessConn_Close_def Conn_Close_def)

lemma endlessConn_Close_closes: "endlessConn_Close os w srv = (r, w', srv') \<Longrightarrow> cclosed w'"
  by (auto simp: endlessConn_Close_def Conn_Close_def split: if_splits option.splits sum.splits)

lemma endlessConn_Close_wg:
  "endlessConn_Close os w srv = (r, w', srv') \<Longrightarrow> wg srv' \<le> wg srv \<and> wg srv \<le> wg srv' + 1"
  by (auto simp: endlessConn_Close_def Conn_Close_def wg_Done_def
           split: if_splits option.splits sum.splits)

lemma close_calls_wg:
  "wg (snd (close_calls oss w srv)) \<le> wg srv \<and> wg srv \<le> wg (snd (close_calls oss w srv)) + 1"
proof (cases oss)
  case Nil
  then show ?thesis by simp
next
  case (Cons os rest)
  obtain r w' srv' where c: "endlessConn_Close os w srv = (r, w', srv')"
    by (cases "endlessConn_Close os w srv") auto
  have "close_calls oss w srv = (w', srv')"
    using Cons c close_calls_closed [OF endlessConn_Close_closes [OF c]] by simp
  then show ?thesis using endlessConn_Close_wg [OF c] by simp
qed

text \<open>
  Claim C1. A successful \<^verbatim>\<open>Accept\<close> returns with the owning server's counter one higher,
  a failed one leaves the server as it was. \<^verbatim>\<open>Close\<close> of a connection leaves the server
  untouched whenever the wrapped close returns an error, takes one off the counter when the
  wrapped close succeeds, and however often a connection is closed the counter goes down by
  at most one.
\<close>

theorem outstanding_accept_close:
  "(\<forall>tc. \<exists>c. Accept (Inr tc) srv = (Inr c, srv\<lparr>wg := wg srv + 1\<rparr>))
   \<and> (\<forall>err. Accept (Inl err) srv = (Inl err, srv))
   \<and> (\<forall>os w. cclosed w \<or> os \<noteq> None \<longrightarrow> snd (snd (endlessConn_Close os w srv)) = srv)
   \<and> (\<forall>w. \<not> cclosed w \<and> 0 < wg srv \<longrightarrow>
         endlessConn_Close None w srv = (Inr None, w\<lparr>cclosed := True\<rparr>, srv\<lparr>wg := wg srv - 1\<rparr>))
   \<and> (\<forall>oss w. wg (snd (close_calls oss w srv)) \<le> wg srv
              \<and> wg srv \<le> wg (snd (close_calls oss w srv)) + 1)"
  apply (intro conjI allI impI)
  subgoal by (simp add: Accept_def wg_Add1_def)
  subgoal by (simp add: Accept_def)
  subgoal by (auto simp: endlessConn_Close_def Conn_Close_def split: option.splits)
  subgoal by (simp add: endlessConn_Close_def Conn_Close_def wg_Done_def)
  subgoal using close_calls_wg by blast
  subgoal using close_calls_wg by blast
  done

theorem outstanding_accept_close_witness:
  "wg (snd (Accept (Inr example_conn) running_server)) = wg running_server + 1
   \<and> snd (Accept (Inl (External 1)) running_server) = running_server
   \<and> snd (snd (endlessConn_Close (Some (External 2)) example_conn
                 (snd (Accept (Inr example_conn) running_server))))
       = snd (Accept (Inr example_conn) running_server)
   \<and> wg (snd (snd (endlessConn_Close None example_conn
                 (snd (Accept (Inr example_conn) running_server))))) = wg running_server
   \<and> wg (snd (close_calls [None, None, None] example_conn
                 (snd (Accept (Inr example_conn) running_server)))) = wg running_server"
  using outstanding_accept_close [of running_server]
  by (simp add: Accept_def endlessConn_Close_def Conn_Close_def wg_Done_def wg_Add1_def
        example_conn_def)

section \<open>Graceful shutdown\<close>

text \<open>
  Claim C5. \<^verbatim>\<open>shutdown\<close> returns the server as it was unless the state is running. From the
  running state it sets the state to shutting down, launches one hammer task with the delay
  \<^verbatim>\<open>DefaultHammerTime\<close> exactly when that delay is not negative, switches keep-alives off and
  closes the listener: the tracking listener is stopped afterwards, and its wrapped listener
  has been closed unless it was stopped before.
\<close>

theorem shutdown_contract:
  "(getState srv \<noteq> STATE_RUNNING \<longrightarrow> shutdown dht res srv = (None, srv))
   \<and> (getState srv = STATE_RUNNING \<longrightarrow>
        state (snd (shutdown dht res srv)) = STATE_SHUTTING_DOWN
        \<and> hammers (snd (shutdown dht res srv)) = (if 0 \<le> dht then hammers srv @ [dht] else hammers srv)
        \<and> keepAlivesEnabled (snd (shutdown dht res srv)) = False
        \<and> (\<forall>el. listener_of srv = Some el \<longrightarrow>
              fst (shutdown dht res srv) = None
              \<and> (\<exists>el'. listener_of (snd (shutdown dht res srv)) = Some el' \<and> stopped el'
                    \<and> (\<not> stopped el \<longrightarrow> lclosed (Listener el')))))"
  by (auto simp: shutdown_def getState_def setState_def EndlessListener_Close_def Let_def
        endlessListener_Close_def listener_of_def STATE_RUNNING_def STATE_SHUTTING_DOWN_def
      split: net_Listener.splits option.splits prod.splits sum.splits if_splits)

theorem shutdown_contract_witness:
  "getState new_server = STATE_INIT
   \<and> shutdown 5 None new_server = (None, new_server)
   \<and> getState running_server = STATE_RUNNING
   \<and> state (snd (shutdown 5 None running_server)) = STATE_SHUTTING_DOWN
   \<and> hammers (snd (shutdown 5 None running_server)) = [5]
   \<and> hammers (snd (shutdown (- 1) None running_server)) = []
   \<and> keepAlivesEnabled (snd (shutdown 5 None running_server)) = False
   \<and> listener_of (snd (shutdown 5 None running_server))
       = Some \<lparr>Listener = \<lparr>sock = 7, lclosed = True\<rparr>, stopped = True\<rparr>"
  using shutdown_contract [of new_server 5 None] shutdown_contract [of running_server 5 None]
    shutdown_contract [of running_server "- 1" None]
  by (simp add: shutdown_def getState_def setState_def EndlessListener_Close_def Let_def
        endlessListener_Close_def listener_of_def STATE_RUNNING_def STATE_SHUTTING_DOWN_def
        STATE_INIT_def running_server_def listening_server_def new_server_def NewServer_def
        Serve_enter_def newEndlessListener_def example_listener_def Getenv_def init_def)

section \<open>Registering signal hooks\<close>

lemma register_loop_mem:
  "sig \<in> set ss \<Longrightarrow> register_loop ss prePost sig f srv = append_hook prePost sig f srv"
  by (induction ss) auto

lemma register_loop_notmem:
  "sig \<notin> set ss \<Longrightarrow>
   register_loop ss prePost sig f srv = (Inr (Some (UnsupportedSignal sig)), srv)"
  by (induction ss) auto

text \<open>Every server made by \<^verbatim>\<open>NewServer\<close> has both phases in its table, and registering keeps them.\<close>

lemma NewServer_hooks:
  "SignalHooks (fst (NewServer environ addr g)) PRE_SIGNAL \<noteq> None
   \<and> SignalHooks (fst (NewServer environ addr g)) POST_SIGNAL \<noteq> None"
  by (simp add: NewServer_def Let_def init_hooks_def PRE_SIGNAL_def POST_SIGNAL_def)

lemma RegisterSignalHook_keeps_phases:
  "SignalHooks srv p \<noteq> None \<Longrightarrow>
   SignalHooks (snd (RegisterSignalHook prePost sig f srv)) p \<noteq> None"
  by (cases "sig \<in> set hookableSignals")
     (auto simp: RegisterSignalHook_def register_loop_mem register_loop_notmem append_hook_def
           split: option.splits)

text \<open>
  Claim C9. On a server whose table has the two phases (as \<^verbatim>\<open>NewServer\<close> builds it),
  \<^verbatim>\<open>RegisterSignalHook\<close> with phase Pre or Post and a hookable signal returns no error and
  puts the callback at the end of the list for that phase and signal, all other lists staying
  as they were; with any other phase, or a signal outside the hookable set, it returns an error
  and the server, its table included, is unchanged.
\<close>

theorem RegisterSignalHook_contract:
  assumes "SignalHooks srv PRE_SIGNAL \<noteq> None" and "SignalHooks srv POST_SIGNAL \<noteq> None"
  shows "((prePost = PRE_SIGNAL \<or> prePost = POST_SIGNAL) \<and> sig \<in> set hookableSignals \<longrightarrow>
            (\<exists>srv'. RegisterSignalHook prePost sig f srv = (Inr None, srv')
                \<and> signalHooks prePost sig srv' = signalHooks prePost sig srv @ [f]
                \<and> (\<forall>p s. (p, s) \<noteq> (prePost, sig) \<longrightarrow>
                      signalHooks p s srv' = signalHooks p s srv)))
       \<and> (\<not> ((prePost = PRE_SIGNAL \<or> prePost = POST_SIGNAL) \<and> sig \<in> set hookableSignals) \<longrightarrow>
            (\<exists>err. RegisterSignalHook prePost sig f srv = (Inr (Some err), srv)))"
proof (intro conjI impI)
  assume a: "(prePost = PRE_SIGNAL \<or> prePost = POST_SIGNAL) \<and> sig \<in> set hookableSignals"
  then obtain m where m: "SignalHooks srv prePost = Some m" using assms by auto
  have "RegisterSignalHook prePost sig f srv = append_hook prePost sig f srv"
    using a by (auto simp: RegisterSignalHook_def register_loop_mem)
  then show "\<exists>srv'. RegisterSignalHook prePost sig f srv = (Inr None, srv')
                \<and> signalHooks prePost sig srv' = signalHooks prePost sig srv @ [f]
                \<and> (\<forall>p s. (p, s) \<noteq> (prePost, sig) \<longrightarrow>
                      signalHooks p s srv' = signalHooks p s srv)"
    using m by (auto simp: append_hook_def signalHooks_def split: option.splits)
next
  assume a: "\<not> ((prePost = PRE_SIGNAL \<or> prePost = POST_SIGNAL) \<and> sig \<in> set hookableSignals)"
  show "\<exists>err. RegisterSignalHook prePost sig f srv = (Inr (Some err), srv)"
    using a by (auto simp: RegisterSignalHook_def register_loop_notmem)
qed

theorem RegisterSignalHook_contract_witness:
  "SignalHooks new_server PRE_SIGNAL \<noteq> None \<and> SignalHooks new_server POST_SIGNAL \<noteq> None
   \<and> fst (RegisterSignalHook PRE_SIGNAL SIGUSR1 11 new_server) = Inr None
   \<and> signalHooks PRE_SIGNAL SIGUSR1 (snd (RegisterSignalHook PRE_SIGNAL SIGUSR1 11 new_server)) = [11]
   \<and> signalHooks POST_SIGNAL SIGUSR1 (snd (RegisterSignalHook PRE_SIGNAL SIGUSR1 11 new_server)) = []
   \<and> RegisterSignalHook PRE_SIGNAL (SIGOTHER 3) 11 new_server
       = (Inr (Some (UnsupportedSignal (SIGOTHER 3))), new_server)
   \<and> RegisterSignalHook 2 SIGHUP 11 new_server = (Inr (Some (BadPrePost SIGHUP)), new_server)"
proof -
  have h: "SignalHooks new_server PRE_SIGNAL \<noteq> None" "SignalHooks new_server POST_SIGNAL \<noteq> None"
    using NewServer_hooks [of "[]" "'':8080''" init] by (simp_all add: new_server_def)
  show ?thesis
    using h RegisterSignalHook_contract [OF h, of PRE_SIGNAL SIGUSR1 11]
      RegisterSignalHook_contract [OF h, of PRE_SIGNAL "SIGOTHER 3" 11]
      RegisterSignalHook_contract [OF h, of 2 SIGHUP 11]
    by (simp add: RegisterSignalHook_def hookableSignals_def append_hook_def signalHooks_def
          new_server_def NewServer_def Let_def init_hooks_def PRE_SIGNAL_def POST_SIGNAL_def)
qed

section \<open>Descriptor slots in a restart child\<close>

lemma decode_order_notin:
  "k \<notin> set xs \<Longrightarrow> map_of (decode_order i xs m) k = map_of m k"
  by (induction xs arbitrary: i m) (auto simp: update_conv')

lemma decode_order_nth:
  "distinct xs \<Longrightarrow> j < length xs \<Longrightarrow> map_of (decode_order i xs m) (xs ! j) = Some (i + j)"
proof (induction xs arbitrary: i m j)
  case Nil
  then show ?case by simp
next
  case (Cons x xs)
  show ?case
  proof (cases j)
    case 0
    then show ?thesis using Cons.prems by (simp add: decode_order_notin update_conv')
  next
    case (Suc j')
    then show ?thesis using Cons.prems Cons.IH [of j' "Suc i"] by simp
  qed
qed

lemma Split_nonempty: "Split s \<noteq> []"
  by (induction s) (auto split: list.splits)

lemma NewServer_offsets:
  "socketPtrOffsetMap (snd (NewServer environ a g)) =
     (if Getenv environ ''ENDLESS_SOCKET_ORDER'' \<noteq> []
      then decode_order 0 (Split (Getenv environ ''ENDLESS_SOCKET_ORDER'')) (socketPtrOffsetMap g)
      else AList.update a (length (runningServersOrder g)) (socketPtrOffsetMap g))"
  by (simp add: NewServer_def Let_def)

lemma register_all_snoc:
  "register_all environ (as @ [a]) g = snd (NewServer environ a (register_all environ as g))"
  by (simp add: register_all_def)

lemma register_all_ordered:
  assumes "addrs \<noteq> []" and "Getenv environ ''ENDLESS_SOCKET_ORDER'' \<noteq> []"
  shows "\<exists>m. socketPtrOffsetMap (register_all environ addrs g) =
           decode_order 0 (Split (Getenv environ ''ENDLESS_SOCKET_ORDER'')) m"
proof -
  obtain as a where "addrs = as @ [a]" using assms(1) by (metis rev_exhaust)
  then show ?thesis using assms(2) by (auto simp: register_all_snoc NewServer_offsets)
qed

lemma register_all_keys:
  assumes "Getenv environ ''ENDLESS_SOCKET_ORDER'' \<noteq> []"
    and "k \<notin> set (Split (Getenv environ ''ENDLESS_SOCKET_ORDER''))"
  shows "map_of (socketPtrOffsetMap (register_all environ addrs init)) k = None"
proof (induction addrs rule: rev_induct)
  case Nil
  show ?case by (simp add: register_all_def init_def)
next
  case (snoc a as)
  then show ?case using assms by (simp add: register_all_snoc NewServer_offsets decode_order_notin)
qed

lemma getListener_child:
  "isChild srv \<Longrightarrow> getListener FL L g srv laddr = opened (FL (3 + offset_of (socketPtrOffsetMap g) laddr))"
  by (cases "socketPtrOffsetMap g") (auto simp: getListener_def opened_def offset_of_def Let_def)

lemma child_environ_order: "Getenv child_environ ''ENDLESS_SOCKET_ORDER'' = '':80,:443''"
  by (simp add: Getenv_def child_environ_def)


lemma child_server_isChild: "isChild child_server"
  by (simp add: child_server_def NewServer_def Let_def Getenv_def child_environ_def)



text \<open>
  Claim C10. In a restart child, an address with no entry in the offset map gets offset 0:
  \<^verbatim>\<open>getListener\<close> returns what opening descriptor 3 gives, so it succeeds whenever that
  descriptor is a listener. An address that is not listed in \<^verbatim>\<open>ENDLESS_SOCKET_ORDER\<close> has
  no entry, and it is given the same descriptor as the first address of the order.
\<close>

theorem child_unlisted_address:
  assumes "isChild srv"
  shows "(map_of (socketPtrOffsetMap g) laddr = None \<longrightarrow>
            getListener FL L g srv laddr = opened (FL 3)
            \<and> (\<forall>l. FL 3 = Inr l \<longrightarrow> getListener FL L g srv laddr = Inr l))
       \<and> (addrs \<noteq> [] \<and> g = register_all environ addrs init
          \<and> Getenv environ ''ENDLESS_SOCKET_ORDER'' \<noteq> []
          \<and> distinct (Split (Getenv environ ''ENDLESS_SOCKET_ORDER''))
          \<and> laddr \<notin> set (Split (Getenv environ ''ENDLESS_SOCKET_ORDER'')) \<longrightarrow>
            map_of (socketPtrOffsetMap g) laddr = None
            \<and> getListener FL L g srv laddr
                = getListener FL L g srv (hd (Split (Getenv environ ''ENDLESS_SOCKET_ORDER''))))"
proof (intro conjI impI allI)
  assume "map_of (socketPtrOffsetMap g) laddr = None"
  then show a: "getListener FL L g srv laddr = opened (FL 3)"
    using assms by (simp add: getListener_child offset_of_def)
  fix l assume "FL 3 = Inr l"
  then show "getListener FL L g srv laddr = Inr l" using a by (simp add: opened_def)
next
  assume a: "addrs \<noteq> [] \<and> g = register_all environ addrs init
          \<and> Getenv environ ''ENDLESS_SOCKET_ORDER'' \<noteq> []
          \<and> distinct (Split (Getenv environ ''ENDLESS_SOCKET_ORDER''))
          \<and> laddr \<notin> set (Split (Getenv environ ''ENDLESS_SOCKET_ORDER''))"
  then show n: "map_of (socketPtrOffsetMap g) laddr = None"
    using register_all_keys by simp
  obtain m where m: "socketPtrOffsetMap g = decode_order 0 (Split (Getenv environ ''ENDLESS_SOCKET_ORDER'')) m"
    using register_all_ordered [of addrs environ init] a by auto
  have "0 < length (Split (Getenv environ ''ENDLESS_SOCKET_ORDER''))"
    using Split_nonempty by simp
  then have "map_of (socketPtrOffsetMap g) (Split (Getenv environ ''ENDLESS_SOCKET_ORDER'') ! 0) = Some 0"
    using a decode_order_nth [of "Split (Getenv environ ''ENDLESS_SOCKET_ORDER'')" 0 0 m] m by simp
  then have "offset_of (socketPtrOffsetMap g) (hd (Split (Getenv environ ''ENDLESS_SOCKET_ORDER''))) = 0"
    using Split_nonempty by (simp add: offset_of_def hd_conv_nth)
  then show "getListener FL L g srv laddr = getListener FL L g srv (hd (Split (Getenv environ ''ENDLESS_SOCKET_ORDER'')))"
    using n assms by (simp add: getListener_child offset_of_def)
qed

theorem child_unlisted_address_witness:
  "isChild child_server
   \<and> map_of (socketPtrOffsetMap (register_all child_environ ['':443'', '':80'', '':9000''] init)) '':9000'' = None
   \<and> getListener example_fds example_listen
        (register_all child_environ ['':443'', '':80'', '':9000''] init) child_server '':9000''
       = Inr \<lparr>sock = 3, lclosed = False\<rparr>
   \<and> getListener example_fds example_listen
        (register_all child_environ ['':443'', '':80'', '':9000''] init) child_server '':80''
       = Inr \<lparr>sock = 3, lclosed = False\<rparr>"
proof -
  have sp: "Split (Getenv child_environ ''ENDLESS_SOCKET_ORDER'') = ['':80'', '':443'']"
    by (simp add: child_environ_order)
  show ?thesis
    using child_unlisted_address [OF child_server_isChild,
            where g = "register_all child_environ ['':443'', '':80'', '':9000''] init"
              and addrs = "['':443'', '':80'', '':9000'']" and environ = child_environ
              and laddr = "'':9000''" and FL = example_fds and L = example_listen]
    by (auto simp: sp child_environ_order child_server_isChild opened_def example_fds_def)
qed

section \<open>At most one fork\<close>

lemma fork_sets_flag: "runningServersForked (snd (fork visit osArgs environ start g))"
  by (auto simp: fork_def Let_def split: sum.splits prod.splits list.splits option.splits)

lemma fork_forked:
  "runningServersForked g \<Longrightarrow> fork visit osArgs environ start g = (ForkError AlreadyForked, g)"
  by (simp add: fork_def)

lemma forks_forked: "runningServersForked g \<Longrightarrow> forks calls g = ([], g)"
  by (induction calls) (auto simp: fork_forked)

lemma forks_at_most_one: "length (fst (forks calls g)) \<le> 1"
proof (cases calls)
  case Nil
  then show ?thesis by simp
next
  case (Cons call rest)
  obtain visit osArgs environ start where call: "call = (visit, osArgs, environ, start)"
    by (cases call) auto
  obtain out g1 where f: "fork visit osArgs environ start g = (out, g1)"
    by (cases "fork visit osArgs environ start g") auto
  have "runningServersForked g1" using fork_sets_flag [of visit osArgs environ start g] f by simp
  then have "forks rest g1 = ([], g1)" by (rule forks_forked)
  then show ?thesis using Cons call f by (cases out) auto
qed

lemma forks_flag: "runningServersForked g \<or> calls \<noteq> [] \<Longrightarrow> runningServersForked (snd (forks calls g))"
proof (cases "runningServersForked g")
  case True
  then show ?thesis by (simp add: forks_forked)
next
  case False
  assume "runningServersForked g \<or> calls \<noteq> []"
  then obtain call rest where c: "calls = call # rest" using False by (cases calls) auto
  obtain visit osArgs environ start where call: "call = (visit, osArgs, environ, start)"
    by (cases call) auto
  obtain out g1 where f: "fork visit osArgs environ start g = (out, g1)"
    by (cases "fork visit osArgs environ start g") auto
  have "runningServersForked g1" using fork_sets_flag [of visit osArgs environ start g] f by simp
  then have "forks rest g1 = ([], g1)" by (rule forks_forked)
  then show ?thesis using c call f \<open>runningServersForked g1\<close> by simp
qed

lemma handleSignal_SIGHUP:
  "snd (snd (handleSignal visit osArgs environ start res SIGHUP srv g))
     = snd (fork visit osArgs environ start g)"
  by (cases "fork visit osArgs environ start g"; cases "fst (fork visit osArgs environ start g)")
     (auto simp: handleSignal_def Let_def)

text \<open>
  Claim C2. When the forked flag is set, \<^verbatim>\<open>fork\<close> returns the "already forked" error and
  leaves the registry as it is, starting nothing. Otherwise the flag is set in the registry
  it leaves behind, whatever happens afterwards. A SIGHUP leaves the registry as \<^verbatim>\<open>fork\<close>
  does. So any sequence of calls starts at most one child, none once the flag is set, and the
  flag stays set; \<^verbatim>\<open>NewServer\<close> does not touch it.
\<close>

theorem at_most_one_fork:
  "(runningServersForked g \<longrightarrow> fork visit osArgs environ start g = (ForkError AlreadyForked, g))
   \<and> runningServersForked (snd (fork visit osArgs environ start g))
   \<and> snd (snd (handleSignal visit osArgs environ start res SIGHUP srv g))
        = snd (fork visit osArgs environ start g)
   \<and> length (fst (forks calls g)) \<le> 1
   \<and> (runningServersForked g \<longrightarrow> forks calls g = ([], g))
   \<and> (runningServersForked g \<or> calls \<noteq> [] \<longrightarrow> runningServersForked (snd (forks calls g)))
   \<and> runningServersForked (snd (NewServer environ addr g)) = runningServersForked g"
  using fork_forked fork_sets_flag handleSignal_SIGHUP forks_at_most_one forks_forked forks_flag
  by (simp add: NewServer_def Let_def)


theorem at_most_one_fork_witness:
  "\<not> runningServersForked parent_registry
   \<and> fst (fork (runningServers parent_registry) [''/bin/server'', ''-v''] parent_environ None
            parent_registry) = Started example_cmd
   \<and> runningServersForked (snd (fork (runningServers parent_registry) [''/bin/server'', ''-v'']
            parent_environ None parent_registry))
   \<and> fst (fork (runningServers parent_registry) [''/bin/server'', ''-v''] parent_environ None
            (snd (fork (runningServers parent_registry) [''/bin/server'', ''-v''] parent_environ None
               parent_registry))) = ForkError AlreadyForked
   \<and> fst (forks [(runningServers parent_registry, [''/bin/server'', ''-v''], parent_environ, None),
                 (rev (runningServers parent_registry), [''/bin/server'', ''-v''], parent_environ, None),
                 (runningServers parent_registry, [''/bin/server'', ''-v''], parent_environ, None)]
            parent_registry) = [example_cmd]"
proof -
  let ?f = "fork (runningServers parent_registry) [''/bin/server'', ''-v''] parent_environ None parent_registry"
  have a: "\<not> runningServersForked parent_registry" by code_simp
  have b: "fst ?f = Started example_cmd" by code_simp
  have c: "runningServersForked (snd ?f)"
    using at_most_one_fork [of parent_registry "runningServers parent_registry"
        "[''/bin/server'', ''-v'']" parent_environ None] by simp
  have d: "fork (runningServers parent_registry) [''/bin/server'', ''-v''] parent_environ None (snd ?f)
           = (ForkError AlreadyForked, snd ?f)"
    using c at_most_one_fork [of "snd ?f" "runningServers parent_registry"
        "[''/bin/server'', ''-v'']" parent_environ None] by simp
  have e: "forks [(rev (runningServers parent_registry), [''/bin/server'', ''-v''], parent_environ, None),
                 (runningServers parent_registry, [''/bin/server'', ''-v''], parent_environ, None)]
            (snd ?f) = ([], snd ?f)"
    using c at_most_one_fork [of "snd ?f" _ _ _ _ _ _
       "[(rev (runningServers parent_registry), [''/bin/server'', ''-v''], parent_environ, None),
                 (runningServers parent_registry, [''/bin/server'', ''-v''], parent_environ, None)]"]
    by simp
  have "forks [(runningServers parent_registry, [''/bin/server'', ''-v''], parent_environ, None),
                 (rev (runningServers parent_registry), [''/bin/server'', ''-v''], parent_environ, None),
                 (runningServers parent_registry, [''/bin/server'', ''-v''], parent_environ, None)]
            parent_registry = ([example_cmd], snd ?f)"
    using b e by (simp add: case_prod_unfold del: forks.simps(2) add: forks.simps(2) [of _ _ _ _ "[_, _]" parent_registry])
  then show ?thesis using a b c d by simp
qed


section \<open>The socket order from parent to child\<close>






















section \<open>The hammer and SIGUSR2\<close>

lemma hammer_loop_wg [simp]: "getState srv \<noteq> STATE_TERMINATE \<Longrightarrow> hammer_loop srv = (srv\<lparr>wg := 0\<rparr>, True)"
proof (induction srv rule: hammer_loop.induct)
  case (1 srv)
  show ?case
  proof (cases "wg srv")
    case 0
    then show ?thesis using 1 by (subst hammer_loop.simps) (simp add: wg_Done_def)
  next
    case (Suc n)
    have "hammer_loop (srv\<lparr>wg := n\<rparr>) = (srv\<lparr>wg := n, wg := 0\<rparr>, True)"
      using 1 Suc by (intro "1.IH") (auto simp: wg_Done_def getState_def)
    then show ?thesis using 1 Suc by (subst hammer_loop.simps) (simp add: wg_Done_def)
  qed
qed







section \<open>The child's signal to its parent\<close>

lemma sigterm_loop_orphan: "sigterm_loop (Suc 0) cnt = []"
  by (simp add: sigterm_loop.simps)

lemma sigterm_loop_three:
  "ppid \<noteq> 1 \<Longrightarrow> sigterm_loop ppid 0 =
     [Kill ppid SIGTERM, Sleep 10, Kill ppid SIGTERM, Sleep 10, Kill ppid SIGTERM, Sleep 10]"
  by (simp add: sigterm_loop.simps)

lemma ListenAndServe_child:
  assumes "isChild srv" and "getListener FL L g srv (if Addr srv = [] then '':http'' else Addr srv) = Inr l"
  shows "fst (ListenAndServe FL L ppid g srv) =
           [GoHandleSignals]
           @ (if ppid = 1 then []
              else [Kill ppid SIGTERM, Sleep 10, Kill ppid SIGTERM, Sleep 10, Kill ppid SIGTERM, Sleep 10])
           @ [CallBeforeBegin (Addr srv), CallServe]"
  using assms by (simp add: ListenAndServe_def Let_def sigterm_loop_orphan sigterm_loop_three)

lemma ListenAndServeTLS_child:
  assumes "isChild srv" and "getListener FL L g srv (if Addr srv = [] then '':https'' else Addr srv) = Inr l"
  shows "fst (ListenAndServeTLS None FL L ppid g srv) = [GoHandleSignals, Kill ppid SIGTERM, CallServe]"
  using assms by (simp add: ListenAndServeTLS_def Let_def)

text \<open>
  Claim C7. For a restart child with parent process 1, \<^verbatim>\<open>ListenAndServe\<close> sends nothing and
  calls \<^verbatim>\<open>BeforeBegin\<close> with the address before \<^verbatim>\<open>Serve\<close>, while \<^verbatim>\<open>ListenAndServeTLS\<close> sends
  SIGTERM to process 1 and never calls \<^verbatim>\<open>BeforeBegin\<close>. With another parent the first sends
  three times, 10 ms apart, and the second once.
\<close>

theorem ListenAndServeTLS_orphaned_child:
  "isChild child_server
   \<and> fst (ListenAndServe example_fds example_listen 1 child_registry child_server)
       = [GoHandleSignals, CallBeforeBegin '':443'', CallServe]
   \<and> fst (ListenAndServeTLS None example_fds example_listen 1 child_registry child_server)
       = [GoHandleSignals, Kill 1 SIGTERM, CallServe]
   \<and> fst (ListenAndServe example_fds example_listen 500 child_registry child_server)
       = [GoHandleSignals, Kill 500 SIGTERM, Sleep 10, Kill 500 SIGTERM, Sleep 10,
          Kill 500 SIGTERM, Sleep 10, CallBeforeBegin '':443'', CallServe]
   \<and> fst (ListenAndServeTLS None example_fds example_listen 500 child_registry child_server)
       = [GoHandleSignals, Kill 500 SIGTERM, CallServe]"
  by code_simp

section \<open>The lifecycle state\<close>






end
